theory Spec2Isabelle
  imports Main "HOL-Library.Sublist" "HOL-Library.Monad_Syntax"
begin

section \<open>Strings\<close>

text \<open>
  A JavaScript string is a sequence of UTF-16 code units and a Python \<open>str\<close> a sequence of
  code points; both are lists of numbers here. \<open>lit\<close> turns an ASCII literal into such a list.
  The backslash (code 92) is always written as the constant \<open>bsl\<close>.
\<close>

type_synonym ustring = "nat list"

definition lit :: "string \<Rightarrow> ustring" where
  "lit s = map of_char s"

definition bsl :: nat where
  "bsl = 0x5C"

section \<open>The JavaScript text that \<open>apply_v14.2_fixes.py\<close> installs\<close>

text \<open>
  \<open>normalizeCorrespondent\<close> and \<open>generateSlug\<close> exist only as the value of the Python
  string constant \<open>NORMALIZATION_CODE\<close>, an ordinary (non-raw) triple-quoted literal. Python
  reads every pair of backslashes of such a literal as one backslash, so the JavaScript that
  is written into the workflow is

  \<^verbatim>\<open>.replace(/[.,]/g, ' ')\<close>
  \<^verbatim>\<open>.replace(/\\s*&\\s*/g, ' ')\<close>
  \<^verbatim>\<open>.replace(/\\s+and\\s+/gi, ' ')\<close>
  \<^verbatim>\<open>.replace(/\\s+/g, ' ')\<close>
  \<^verbatim>\<open>new RegExp('\\\\b(' + LEGAL_SUFFIXES.join('|') + ')\\\\b', 'gi')\<close>
  \<^verbatim>\<open>.replace(/\\s*[&+]\\s*$/g, '')\<close>
  \<^verbatim>\<open>.replace(/\\b\\w/g, c => c.toUpperCase())\<close>
  \<^verbatim>\<open>.replace(/[\\u0300-\\u036f]/g, '')\<close>

  with the suffix entries \<^verbatim>\<open>'s\\.a\\.?'\<close> and so on. In a JavaScript regular expression
  \<^verbatim>\<open>\\\<close> is an escaped backslash: it matches the backslash character itself, and the
  letter after it is an ordinary letter. The regular expressions below are translated from
  this text. The patterns without a backslash (\<^verbatim>\<open>/[.,]/g\<close>, \<^verbatim>\<open>/[^a-z0-9]+/g\<close>,
  \<^verbatim>\<open>/^-+|-+$/g\<close>) are unaffected.
\<close>

subsection \<open>The runtime\<close>

text \<open>
  \<open>toLowerCase\<close>, \<open>toUpperCase\<close> and \<open>normalize('NFD')\<close> are built-ins of the JavaScript
  runtime, driven by the Unicode tables. They are parameters of the model; the general
  theorems hold for every choice of them. \<open>latin1_runtime\<close> below is the instance that
  agrees with ECMAScript on strings of code units below 256, used to run the functions on
  such inputs.
\<close>

record js_runtime =
  toLowerCase :: "ustring \<Rightarrow> ustring"
  toUpperCase :: "ustring \<Rightarrow> ustring"
  normalizeNFD :: "ustring \<Rightarrow> ustring"

datatype ('n, 'o) jsvalue =
    JSUndefined
  | JSNull
  | JSBoolean bool
  | JSNumber 'n
  | JSString ustring
  | JSObject 'o

text \<open>\<open>String.prototype.trim\<close> removes WhiteSpace and LineTerminator code units at both ends.\<close>

definition isWhiteSpace :: "nat \<Rightarrow> bool" where
  "isWhiteSpace c =
     (c = 0x09 \<or> c = 0x0A \<or> c = 0x0B \<or> c = 0x0C \<or> c = 0x0D \<or> c = 0x20 \<or> c = 0xA0
      \<or> c = 0x1680 \<or> (0x2000 \<le> c \<and> c \<le> 0x200A) \<or> c = 0x2028 \<or> c = 0x2029
      \<or> c = 0x202F \<or> c = 0x205F \<or> c = 0x3000 \<or> c = 0xFEFF)"

definition trim :: "ustring \<Rightarrow> ustring" where
  "trim s = rev (dropWhile isWhiteSpace (rev (dropWhile isWhiteSpace s)))"

subsection \<open>\<open>String.prototype.replace\<close> with a global regular expression\<close>

text \<open>
  \<open>m s\<close> is the length of the match of the regular expression at the start of \<open>s\<close>, if it
  matches there; \<open>r\<close> computes the replacement from the matched text. The search goes from
  left to right and resumes after each match; after an empty match it steps over one code
  unit.
\<close>

fun replace_g :: "(ustring \<Rightarrow> nat option) \<Rightarrow> (ustring \<Rightarrow> ustring) \<Rightarrow> ustring \<Rightarrow> ustring" where
  "replace_g m r [] = (case m [] of None \<Rightarrow> [] | Some k \<Rightarrow> r [])"
| "replace_g m r (c # cs) =
     (case m (c # cs) of
        None \<Rightarrow> c # replace_g m r cs
      | Some 0 \<Rightarrow> r [] @ c # replace_g m r cs
      | Some (Suc k) \<Rightarrow> r (take (Suc k) (c # cs)) @ replace_g m r (drop k cs))"

text \<open>Matching a literal at the start of the text; the result is the rest of the text.\<close>

fun eat :: "ustring \<Rightarrow> ustring \<Rightarrow> ustring option" where
  "eat [] s = Some s"
| "eat (p # ps) [] = None"
| "eat (p # ps) (c # cs) = (if c = p then eat ps cs else None)"

text \<open>
  With the flag \<open>i\<close> (and without \<open>u\<close>) two code units match when their canonical forms are
  equal. The canonical form is the upper-case mapping, except that a code unit of 128 or more
  is never mapped below 128. Every pattern character here is ASCII, so only the ASCII part
  of the mapping decides a match.
\<close>

definition canon :: "nat \<Rightarrow> nat" where
  "canon c = (if 0x61 \<le> c \<and> c \<le> 0x7A then c - 0x20 else c)"

fun eat_ci :: "ustring \<Rightarrow> ustring \<Rightarrow> ustring option" where
  "eat_ci [] s = Some s"
| "eat_ci (p # ps) [] = None"
| "eat_ci (p # ps) (c # cs) = (if canon c = canon p then eat_ci ps cs else None)"

definition is_s :: "nat \<Rightarrow> bool" where
  "is_s c = (c = 0x73)"

definition is_s_ci :: "nat \<Rightarrow> bool" where
  "is_s_ci c = (canon c = canon 0x73)"

text \<open>\<^verbatim>\<open>/[.,]/g\<close>\<close>

definition re_punct :: "ustring \<Rightarrow> nat option" where
  "re_punct s = (case s of [] \<Rightarrow> None | c # cs \<Rightarrow> if c = 0x2E \<or> c = 0x2C then Some 1 else None)"

text \<open>
  \<^verbatim>\<open>/\\s*&\\s*/g\<close>: a backslash, any number of \<open>s\<close>, \<open>&\<close>, a backslash, any number of \<open>s\<close>.
  A greedy star over \<open>s\<close> followed by something that is not \<open>s\<close> has one way to match.
\<close>

definition re_amp :: "ustring \<Rightarrow> nat option" where
  "re_amp s = do {
     r1 \<leftarrow> eat [bsl] s;
     r2 \<leftarrow> eat [0x26, bsl] (dropWhile is_s r1);
     Some (length s - length (dropWhile is_s r2))
   }"

text \<open>\<^verbatim>\<open>/\\s+and\\s+/gi\<close>: a backslash, one or more \<open>s\<close>, \<open>and\<close>, a backslash, one or more \<open>s\<close>.\<close>

definition re_and :: "ustring \<Rightarrow> nat option" where
  "re_and s = do {
     r1 \<leftarrow> eat_ci [bsl, 0x73] s;
     r2 \<leftarrow> eat_ci (lit ''and'' @ [bsl, 0x73]) (dropWhile is_s_ci r1);
     Some (length s - length (dropWhile is_s_ci r2))
   }"

text \<open>\<^verbatim>\<open>/\\s+/g\<close>: a backslash and one or more \<open>s\<close>.\<close>

definition re_s_plus :: "ustring \<Rightarrow> nat option" where
  "re_s_plus s = do {
     r1 \<leftarrow> eat [bsl, 0x73] s;
     Some (length s - length (dropWhile is_s r1))
   }"

text \<open>
  \<open>LEGAL_SUFFIXES\<close>: each entry with the flag that says whether it ends in an optional dot
  (\<^verbatim>\<open>\.?\<close>); in the entries \<^verbatim>\<open>\.\<close> is an escaped dot, a literal dot.
\<close>

definition LEGAL_SUFFIXES :: "(ustring \<times> bool) list" where
  "LEGAL_SUFFIXES =
     [(lit ''gmbh'', False), (lit ''kg'', False), (lit ''kgaa'', False), (lit ''ag'', False),
      (lit ''se'', False), (lit ''llc'', False), (lit ''inc'', False), (lit ''corp'', False),
      (lit ''corporation'', False), (lit ''ltd'', False), (lit ''limited'', False),
      (lit ''plc'', False), (lit ''s.a'', True), (lit ''s.r.l'', True), (lit ''s.p.a'', True),
      (lit ''bv'', False), (lit ''nv'', False), (lit ''oy'', False), (lit ''ab'', False),
      (lit ''aps'', False), (lit ''as'', False), (lit ''co'', False), (lit ''company'', False),
      (lit ''rcv'', False), (lit ''ohg'', False), (lit ''gbr'', False), (lit ''ev'', False),
      (lit ''eg'', False), (lit ''ges.m.b.h'', True), (lit ''stg'', False)]"

text \<open>
  The alternatives of the joined pattern in the order in which the matcher tries them: an
  optional dot is tried present first, then absent.
\<close>

definition suffix_alternatives :: "ustring list" where
  "suffix_alternatives =
     concat (map (\<lambda>(w, opt). if opt then [w @ [0x2E], w] else [w]) LEGAL_SUFFIXES)"

fun first_match :: "('a \<Rightarrow> 'b option) \<Rightarrow> 'a list \<Rightarrow> 'b option" where
  "first_match f [] = None"
| "first_match f (x # xs) = (case f x of Some y \<Rightarrow> Some y | None \<Rightarrow> first_match f xs)"

text \<open>
  \<open>suffixRe\<close>, flags \<open>gi\<close>: a backslash, \<open>b\<close>, one of the alternatives, a backslash, \<open>b\<close>.
\<close>

definition suffixRe :: "ustring \<Rightarrow> nat option" where
  "suffixRe s = do {
     r1 \<leftarrow> eat_ci [bsl, 0x62] s;
     first_match (\<lambda>w. do {
         r2 \<leftarrow> eat_ci (w @ [bsl, 0x62]) r1;
         Some (length s - length r2)
       }) suffix_alternatives
   }"

text \<open>
  \<^verbatim>\<open>/\\s*[&+]\\s*$/g\<close>: a backslash, any number of \<open>s\<close>, \<open>&\<close> or \<open>+\<close>, a backslash, any
  number of \<open>s\<close>, and then the end of the text.
\<close>

definition re_trailing :: "ustring \<Rightarrow> nat option" where
  "re_trailing s = do {
     r1 \<leftarrow> eat [bsl] s;
     (case dropWhile is_s r1 of
        [] \<Rightarrow> None
      | c # r2 \<Rightarrow>
          if c = 0x26 \<or> c = 0x2B then do {
            r3 \<leftarrow> eat [bsl] r2;
            (if dropWhile is_s r3 = [] then Some (length s) else None)
          } else None)
   }"

text \<open>\<^verbatim>\<open>/\\b\\w/g\<close>: the four characters backslash, \<open>b\<close>, backslash, \<open>w\<close>.\<close>

definition re_b_w :: "ustring \<Rightarrow> nat option" where
  "re_b_w s = do {
     r1 \<leftarrow> eat [bsl, 0x62, bsl, 0x77] s;
     Some (length s - length r1)
   }"

subsection \<open>\<open>normalizeCorrespondent\<close>\<close>

definition ALIASES :: "(ustring \<times> ustring) list" where
  "ALIASES =
     [(lit ''boehringer ingelheim rcv & co'', lit ''Boehringer Ingelheim''),
      (lit ''boehringer ingelheim rcv'', lit ''Boehringer Ingelheim''),
      (lit ''magistrat wien-mba f.d. 21. bezirk'', lit ''Magistrat Wien''),
      (lit ''magistrat wien'', lit ''Magistrat Wien''),
      (lit ''wiener linien gmbh & co'', lit ''Wiener Linien''),
      (lit ''magenta telekom'', lit ''Magenta Telekom''),
      (lit ''magenta'', lit ''Magenta Telekom'')]"

definition to_space :: "ustring \<Rightarrow> ustring" where
  "to_space m = [0x20]"

definition to_empty :: "ustring \<Rightarrow> ustring" where
  "to_empty m = []"

text \<open>The stripping pipeline that runs when no alias matches, up to the title-casing.\<close>

definition strip_pipeline :: "js_runtime \<Rightarrow> ustring \<Rightarrow> ustring" where
  "strip_pipeline rt name =
     (let n = trim (replace_g re_s_plus to_space
                (replace_g re_and to_space
                  (replace_g re_amp to_space
                    (replace_g re_punct to_space name))));
          n = trim (replace_g re_s_plus to_space (replace_g suffixRe to_empty n));
          n = trim (replace_g re_trailing to_empty n)
      in replace_g re_b_w (toUpperCase rt) n)"

text \<open>
  The loop over \<open>Object.entries(ALIASES)\<close>: the first entry, in insertion order, whose key is
  a prefix of the lower-cased, trimmed name.
\<close>

definition alias_match :: "js_runtime \<Rightarrow> ustring \<Rightarrow> (ustring \<times> ustring) option" where
  "alias_match rt name =
     (let lowerName = trim (toLowerCase rt name)
      in find (\<lambda>(key, value). prefix key lowerName) ALIASES)"

text \<open>
  \<open>!name\<close> is true of \<open>undefined\<close>, \<open>null\<close>, \<open>false\<close>, \<open>0\<close>, \<open>NaN\<close> and the empty string;
  \<open>typeof name !== 'string'\<close> of every value that is not a string. Either way the result is
  \<open>'Unknown'\<close>, so only a non-empty string goes on.
\<close>

definition normalizeCorrespondent :: "js_runtime \<Rightarrow> ('n, 'o) jsvalue \<Rightarrow> ustring" where
  "normalizeCorrespondent rt v =
     (case v of
        JSString name \<Rightarrow>
          if name = [] then lit ''Unknown''
          else
            (case alias_match rt name of
               Some (key, value) \<Rightarrow> value
             | None \<Rightarrow>
                 (let n = strip_pipeline rt name
                  in if n = [] then lit ''Unknown'' else n))
      | _ \<Rightarrow> lit ''Unknown'')"

subsection \<open>\<open>generateSlug\<close>\<close>

text \<open>
  \<^verbatim>\<open>/[\\u0300-\\u036f]/g\<close>: the class holds the backslash, \<open>u\<close>, \<open>0\<close>, \<open>3\<close>, \<open>0\<close>, the range
  from \<open>0\<close> (48) to the backslash (92), \<open>u\<close>, \<open>0\<close>, \<open>3\<close>, \<open>6\<close> and \<open>f\<close>.
\<close>

definition re_marks :: "ustring \<Rightarrow> nat option" where
  "re_marks s =
     (case s of
        [] \<Rightarrow> None
      | c # cs \<Rightarrow>
          if c = bsl \<or> c = 0x75 \<or> c = 0x30 \<or> c = 0x33 \<or> (0x30 \<le> c \<and> c \<le> bsl)
             \<or> c = 0x36 \<or> c = 0x66
          then Some 1 else None)"

definition alnum :: "nat \<Rightarrow> bool" where
  "alnum c = ((0x61 \<le> c \<and> c \<le> 0x7A) \<or> (0x30 \<le> c \<and> c \<le> 0x39))"

text \<open>\<^verbatim>\<open>/[^a-z0-9]+/g\<close>\<close>

definition re_non_alnum :: "ustring \<Rightarrow> nat option" where
  "re_non_alnum s =
     (case takeWhile (\<lambda>c. \<not> alnum c) s of [] \<Rightarrow> None | c # cs \<Rightarrow> Some (Suc (length cs)))"

definition to_hyphen :: "ustring \<Rightarrow> ustring" where
  "to_hyphen m = [0x2D]"

text \<open>
  \<^verbatim>\<open>.replace(/^-+|-+$/g, '')\<close>: the run of hyphens at the start and the run of hyphens at the
  end are removed.
\<close>

definition strip_hyphens :: "ustring \<Rightarrow> ustring" where
  "strip_hyphens s =
     rev (dropWhile (\<lambda>c. c = 0x2D) (rev (dropWhile (\<lambda>c. c = 0x2D) s)))"

definition generateSlug :: "js_runtime \<Rightarrow> ustring \<Rightarrow> ustring" where
  "generateSlug rt name =
     take 50
       (strip_hyphens
         (replace_g re_non_alnum to_hyphen
           (replace_g re_marks to_empty
             (normalizeNFD rt (toLowerCase rt name)))))"

subsection \<open>The runtime on Latin-1 text\<close>

definition lower_unit :: "nat \<Rightarrow> nat" where
  "lower_unit c =
     (if (0x41 \<le> c \<and> c \<le> 0x5A) \<or> (0xC0 \<le> c \<and> c \<le> 0xDE \<and> c \<noteq> 0xD7) then c + 0x20 else c)"

definition upper_unit :: "nat \<Rightarrow> ustring" where
  "upper_unit c =
     (if (0x61 \<le> c \<and> c \<le> 0x7A) \<or> (0xE0 \<le> c \<and> c \<le> 0xFE \<and> c \<noteq> 0xF7) then [c - 0x20]
      else if c = 0xDF then [0x53, 0x53]
      else if c = 0xFF then [0x178]
      else if c = 0xB5 then [0x39C]
      else [c])"

text \<open>
  The canonical decompositions of the Latin-1 letters: the base letter and the combining
  mark, for the upper-case letter at \<open>0xC0 + i\<close> and the lower-case one at \<open>0xE0 + i\<close>.
\<close>

definition latin1_marks :: "(nat \<times> nat) option list" where
  "latin1_marks =
     [Some (0x41, 0x300), Some (0x41, 0x301), Some (0x41, 0x302), Some (0x41, 0x303),
      Some (0x41, 0x308), Some (0x41, 0x30A), None, Some (0x43, 0x327),
      Some (0x45, 0x300), Some (0x45, 0x301), Some (0x45, 0x302), Some (0x45, 0x308),
      Some (0x49, 0x300), Some (0x49, 0x301), Some (0x49, 0x302), Some (0x49, 0x308),
      None, Some (0x4E, 0x303), Some (0x4F, 0x300), Some (0x4F, 0x301),
      Some (0x4F, 0x302), Some (0x4F, 0x303), Some (0x4F, 0x308), None,
      None, Some (0x55, 0x300), Some (0x55, 0x301), Some (0x55, 0x302),
      Some (0x55, 0x308), Some (0x59, 0x301), None, None]"

definition nfd_unit :: "nat \<Rightarrow> ustring" where
  "nfd_unit c =
     (if 0xC0 \<le> c \<and> c < 0xE0 then
        (case latin1_marks ! (c - 0xC0) of None \<Rightarrow> [c] | Some (b, m) \<Rightarrow> [b, m])
      else if 0xE0 \<le> c \<and> c < 0xFF then
        (case latin1_marks ! (c - 0xE0) of None \<Rightarrow> [c] | Some (b, m) \<Rightarrow> [b + 0x20, m])
      else if c = 0xFF then [0x79, 0x308]
      else [c])"

definition latin1_runtime :: js_runtime where
  "latin1_runtime =
     \<lparr> toLowerCase = map lower_unit,
       toUpperCase = (\<lambda>s. concat (map upper_unit s)),
       normalizeNFD = (\<lambda>s. concat (map nfd_unit s)) \<rparr>"

section \<open>\<open>apply_fixes\<close>\<close>

text \<open>
  The workflow is the value that \<open>json.load\<close> builds: a tree of dicts, lists, strings,
  numbers, booleans and \<open>None\<close> without sharing, so that a change in place is a change of
  the tree. Numbers play no part and stay abstract. A dict is the list of its items in
  insertion order. The two code texts that fixes 2 and 3 install are arguments of the
  model; the \<open>print\<close> calls and the list \<open>fixes_applied\<close>, which is only printed, are left
  out.
\<close>

datatype 'n json =
    JNull
  | JBool bool
  | JNum 'n
  | JStr ustring
  | JArr "'n json list"
  | JObj "(ustring \<times> 'n json) list"

datatype pyerror = KeyError | TypeError | AttributeError

type_synonym 'n dict = "(ustring \<times> 'n json) list"

text \<open>\<open>d.get(k, default)\<close>, \<open>d[k]\<close> and \<open>d[k] = v\<close>.\<close>

definition dict_get :: "'n dict \<Rightarrow> ustring \<Rightarrow> 'n json \<Rightarrow> 'n json" where
  "dict_get d k dflt = (case map_of d k of None \<Rightarrow> dflt | Some v \<Rightarrow> v)"

definition getitem :: "'n dict \<Rightarrow> ustring \<Rightarrow> pyerror + 'n json" where
  "getitem d k = (case map_of d k of None \<Rightarrow> Inl KeyError | Some v \<Rightarrow> Inr v)"

fun setitem :: "ustring \<Rightarrow> 'n json \<Rightarrow> 'n dict \<Rightarrow> 'n dict" where
  "setitem k v [] = [(k, v)]"
| "setitem k v ((k', v') # d) = (if k' = k then (k, v) # d else (k', v') # setitem k v d)"

text \<open>\<open>p in s\<close> for two strings.\<close>

fun str_contains :: "ustring \<Rightarrow> ustring \<Rightarrow> bool" where
  "str_contains p [] = (p = [])"
| "str_contains p (c # cs) = (prefix p (c # cs) \<or> str_contains p cs)"

text \<open>
  \<open>str.replace(old, new)\<close>: every occurrence of \<open>old\<close>, found from left to right without
  overlap, becomes \<open>new\<close>. \<open>str_scan\<close> is the scan for a non-empty \<open>old\<close>; with an empty
  \<open>old\<close> Python puts \<open>new\<close> before every character and at the end.
\<close>

fun str_scan :: "ustring \<Rightarrow> ustring \<Rightarrow> ustring \<Rightarrow> ustring" where
  "str_scan old new [] = []"
| "str_scan old new (c # cs) =
     (if prefix old (c # cs) then new @ str_scan old new (drop (length old - 1) cs)
      else c # str_scan old new cs)"

definition str_replace :: "ustring \<Rightarrow> ustring \<Rightarrow> ustring \<Rightarrow> ustring" where
  "str_replace old new s =
     (if old = [] then new @ concat (map (\<lambda>c. c # new) s) else str_scan old new s)"

text \<open>\<open>node.get('name') == nm\<close>; a node that is not a dict has no \<open>get\<close>.\<close>

definition name_is :: "ustring \<Rightarrow> 'n json \<Rightarrow> pyerror + bool" where
  "name_is nm node =
     (case node of
        JObj d \<Rightarrow> Inr (dict_get d (lit ''name'') JNull = JStr nm)
      | _ \<Rightarrow> Inl AttributeError)"

text \<open>\<open>node['parameters']\<close>\<close>

definition node_parameters :: "'n json \<Rightarrow> pyerror + 'n json" where
  "node_parameters node =
     (case node of JObj d \<Rightarrow> getitem d (lit ''parameters'') | _ \<Rightarrow> Inl TypeError)"

text \<open>
  \<open>node['parameters'][k] = v\<close>: the parameters are changed in place, so the node holds the
  changed parameters afterwards. Only a dict takes an item under a string key.
\<close>

definition assign_parameter :: "'n json \<Rightarrow> ustring \<Rightarrow> 'n json \<Rightarrow> pyerror + 'n json" where
  "assign_parameter node k v =
     (case node_parameters node of
        Inl e \<Rightarrow> Inl e
      | Inr params \<Rightarrow>
          (case (node, params) of
             (JObj d, JObj p) \<Rightarrow> Inr (JObj (setitem (lit ''parameters'') (JObj (setitem k v p)) d))
           | _ \<Rightarrow> Inl TypeError))"

text \<open>\<open>needle in hay\<close> for a string needle.\<close>

definition py_in :: "ustring \<Rightarrow> 'n json \<Rightarrow> pyerror + bool" where
  "py_in needle hay =
     (case hay of
        JStr s \<Rightarrow> Inr (str_contains needle s)
      | JArr xs \<Rightarrow> Inr (JStr needle \<in> set xs)
      | JObj d \<Rightarrow> Inr (needle \<in> set (map fst d))
      | _ \<Rightarrow> Inl TypeError)"

text \<open>\<open>for node in nodes\<close>, with the body changing the node in place; the first error ends it.\<close>

fun for_each :: "('a \<Rightarrow> pyerror + 'a) \<Rightarrow> 'a list \<Rightarrow> pyerror + 'a list" where
  "for_each f [] = Inr []"
| "for_each f (x # xs) =
     (case f x of
        Inl e \<Rightarrow> Inl e
      | Inr y \<Rightarrow> (case for_each f xs of Inl e \<Rightarrow> Inl e | Inr ys \<Rightarrow> Inr (y # ys)))"

definition page_size_query :: "'n json" where
  "page_size_query =
     JObj [(lit ''parameters'',
            JArr [JObj [(lit ''name'', JStr (lit ''page_size'')),
                        (lit ''value'', JStr (lit ''1000''))]])]"

definition fix1 :: "'n json \<Rightarrow> pyerror + 'n json" where
  "fix1 node =
     (case name_is (lit ''Check Storage Paths'') node of
        Inl e \<Rightarrow> Inl e
      | Inr False \<Rightarrow> Inr node
      | Inr True \<Rightarrow>
          (case assign_parameter node (lit ''sendQuery'') (JBool True) of
             Inl e \<Rightarrow> Inl e
           | Inr node' \<Rightarrow> assign_parameter node' (lit ''queryParameters'') page_size_query))"

definition fix2 :: "ustring \<Rightarrow> 'n json \<Rightarrow> pyerror + 'n json" where
  "fix2 GENERATE_STORAGE_PATH_CODE node =
     (case name_is (lit ''Generate Storage Path'') node of
        Inl e \<Rightarrow> Inl e
      | Inr False \<Rightarrow> Inr node
      | Inr True \<Rightarrow> assign_parameter node (lit ''jsCode'') (JStr GENERATE_STORAGE_PATH_CODE))"

definition fix3 :: "ustring \<Rightarrow> 'n json \<Rightarrow> pyerror + 'n json" where
  "fix3 GET_STORAGE_PATH_ID_CODE node =
     (case name_is (lit ''Get Storage Path ID'') node of
        Inl e \<Rightarrow> Inl e
      | Inr False \<Rightarrow> Inr node
      | Inr True \<Rightarrow> assign_parameter node (lit ''jsCode'') (JStr GET_STORAGE_PATH_ID_CODE))"

text \<open>
  Fixes 4 and 5: \<open>node['parameters'].get(key, '')\<close>, the test \<open>'correspondent_name' in ...\<close>
  and, when it holds, \<open>replace\<close> and the assignment. Only a dict has \<open>get\<close>, only a string
  has \<open>replace\<close>.
\<close>

definition patch_parameter :: "ustring \<Rightarrow> ustring \<Rightarrow> ustring \<Rightarrow> 'n json \<Rightarrow> pyerror + 'n json" where
  "patch_parameter key old new node =
     (case node_parameters node of
        Inl e \<Rightarrow> Inl e
      | Inr (JObj p) \<Rightarrow>
          (let current = dict_get p key (JStr [])
           in case py_in (lit ''correspondent_name'') current of
                Inl e \<Rightarrow> Inl e
              | Inr False \<Rightarrow> Inr node
              | Inr True \<Rightarrow>
                  (case current of
                     JStr s \<Rightarrow> assign_parameter node key (JStr (str_replace old new s))
                   | _ \<Rightarrow> Inl AttributeError))
      | Inr _ \<Rightarrow> Inl AttributeError)"

definition fix4 :: "'n json \<Rightarrow> pyerror + 'n json" where
  "fix4 node =
     (case name_is (lit ''Check Correspondent Exists'') node of
        Inl e \<Rightarrow> Inl e
      | Inr False \<Rightarrow> Inr node
      | Inr True \<Rightarrow>
          patch_parameter (lit ''jsCode'') (lit ''data.correspondent_name'')
            (lit ''data.correspondent_canonical || data.correspondent_name'') node)"

definition fix5 :: "'n json \<Rightarrow> pyerror + 'n json" where
  "fix5 node =
     (case name_is (lit ''Create Correspondent'') node of
        Inl e \<Rightarrow> Inl e
      | Inr False \<Rightarrow> Inr node
      | Inr True \<Rightarrow>
          patch_parameter (lit ''jsonBody'') (lit ''$json.correspondent_name'')
            (lit ''$json.correspondent_canonical'') node)"

text \<open>The five loops, one after the other, over the same list.\<close>

definition fix_nodes :: "ustring \<Rightarrow> ustring \<Rightarrow> 'n json list \<Rightarrow> pyerror + 'n json list" where
  "fix_nodes GENERATE_STORAGE_PATH_CODE GET_STORAGE_PATH_ID_CODE nodes =
     (case for_each fix1 nodes of Inl e \<Rightarrow> Inl e | Inr n1 \<Rightarrow>
      case for_each (fix2 GENERATE_STORAGE_PATH_CODE) n1 of Inl e \<Rightarrow> Inl e | Inr n2 \<Rightarrow>
      case for_each (fix3 GET_STORAGE_PATH_ID_CODE) n2 of Inl e \<Rightarrow> Inl e | Inr n3 \<Rightarrow>
      case for_each fix4 n3 of Inl e \<Rightarrow> Inl e | Inr n4 \<Rightarrow>
      for_each fix5 n4)"

text \<open>
  \<open>apply_fixes\<close> on the value that \<open>json.load\<close> returned. \<open>workflow.get('nodes', [])\<close> needs a
  dict. A list of nodes is changed in place, so the workflow holds the changed list under
  the same key. Iterating over a dict gives its keys and over a string its characters,
  strings without \<open>get\<close>; the other values cannot be iterated over.
\<close>

definition apply_fixes :: "ustring \<Rightarrow> ustring \<Rightarrow> 'n json \<Rightarrow> pyerror + 'n json" where
  "apply_fixes GENERATE_STORAGE_PATH_CODE GET_STORAGE_PATH_ID_CODE workflow =
     (case workflow of
        JObj w \<Rightarrow>
          (case dict_get w (lit ''nodes'') (JArr []) of
             JArr nodes \<Rightarrow>
               (case fix_nodes GENERATE_STORAGE_PATH_CODE GET_STORAGE_PATH_ID_CODE nodes of
                  Inl e \<Rightarrow> Inl e
                | Inr nodes' \<Rightarrow>
                    Inr (JObj (if map_of w (lit ''nodes'') = None then w
                               else setitem (lit ''nodes'') (JArr nodes') w)))
           | JObj d \<Rightarrow> (if d = [] then Inr workflow else Inl AttributeError)
           | JStr s \<Rightarrow> (if s = [] then Inr workflow else Inl AttributeError)
           | _ \<Rightarrow> Inl TypeError)
      | _ \<Rightarrow> Inl AttributeError)"

text \<open>What the frame property speaks about.\<close>

definition TARGET_NAMES :: "ustring list" where
  "TARGET_NAMES =
     [lit ''Check Storage Paths'', lit ''Generate Storage Path'', lit ''Get Storage Path ID'',
      lit ''Check Correspondent Exists'', lit ''Create Correspondent'']"

definition targeted :: "'n json \<Rightarrow> bool" where
  "targeted node =
     (case node of
        JObj d \<Rightarrow> (case map_of d (lit ''name'') of
                     Some (JStr nm) \<Rightarrow> nm \<in> set TARGET_NAMES
                   | _ \<Rightarrow> False)
      | _ \<Rightarrow> False)"

definition nodes_of :: "'n json \<Rightarrow> 'n json list" where
  "nodes_of workflow =
     (case workflow of
        JObj w \<Rightarrow> (case map_of w (lit ''nodes'') of Some (JArr ns) \<Rightarrow> ns | _ \<Rightarrow> [])
      | _ \<Rightarrow> [])"

definition connections_of :: "'n json \<Rightarrow> 'n json option" where
  "connections_of workflow =
     (case workflow of JObj w \<Rightarrow> map_of w (lit ''connections'') | _ \<Rightarrow> None)"

text \<open>
  The shape that the loops rely on: the nodes are dicts, a node with one of the five names
  has a dict under \<open>parameters\<close>, and what fixes 4 and 5 read there is a string or absent.
\<close>

definition patchable :: "ustring \<Rightarrow> 'n dict \<Rightarrow> bool" where
  "patchable key p = (case map_of p key of None \<Rightarrow> True | Some (JStr s) \<Rightarrow> True | Some _ \<Rightarrow> False)"

definition wf_node :: "'n json \<Rightarrow> bool" where
  "wf_node node =
     (case node of
        JObj d \<Rightarrow>
          (if targeted node then
             (case map_of d (lit ''parameters'') of
                Some (JObj p) \<Rightarrow>
                  (if map_of d (lit ''name'') = Some (JStr (lit ''Check Correspondent Exists''))
                   then patchable (lit ''jsCode'') p
                   else if map_of d (lit ''name'') = Some (JStr (lit ''Create Correspondent''))
                   then patchable (lit ''jsonBody'') p
                   else True)
              | _ \<Rightarrow> False)
           else True)
      | _ \<Rightarrow> False)"

definition well_formed :: "'n json \<Rightarrow> bool" where
  "well_formed workflow =
     (case workflow of
        JObj w \<Rightarrow> (case map_of w (lit ''nodes'') of
                     None \<Rightarrow> True
                   | Some (JArr ns) \<Rightarrow> list_all wf_node ns
                   | Some _ \<Rightarrow> False)
      | _ \<Rightarrow> False)"

section \<open>Notions used in the statements\<close>

text \<open>No white space at either end.\<close>

definition trimmed :: "ustring \<Rightarrow> bool" where
  "trimmed s = (s = [] \<or> (\<not> isWhiteSpace (hd s) \<and> \<not> isWhiteSpace (last s)))"

text \<open>A matcher that can only match at a backslash.\<close>

definition needs_bsl :: "(ustring \<Rightarrow> nat option) \<Rightarrow> bool" where
  "needs_bsl m = (m [] = None \<and> (\<forall>c cs. c \<noteq> bsl \<longrightarrow> m (c # cs) = None))"

definition punct_to_space :: "nat \<Rightarrow> nat" where
  "punct_to_space c = (if c = 0x2E \<or> c = 0x2C then 0x20 else c)"

definition bw :: ustring where
  "bw = [bsl, 0x62, bsl, 0x77]"

definition BW :: ustring where
  "BW = [bsl, 0x42, bsl, 0x57]"

definition blank_or_non_string :: "('n, 'o) jsvalue \<Rightarrow> bool" where
  "blank_or_non_string v = (case v of JSString name \<Rightarrow> trim name = [] | _ \<Rightarrow> True)"

text \<open>A small workflow with two of the five nodes and one other node.\<close>

definition sample_workflow :: "int json" where
  "sample_workflow =
     JObj [(lit ''name'', JStr (lit ''wf'')),
           (lit ''nodes'', JArr
              [JObj [(lit ''name'', JStr (lit ''Check Storage Paths'')),
                     (lit ''parameters'', JObj [(lit ''url'', JStr (lit ''u''))])],
               JObj [(lit ''name'', JStr (lit ''Other'')), (lit ''position'', JNum 3)],
               JObj [(lit ''parameters'',
                        JObj [(lit ''jsCode'', JStr (lit ''x = data.correspondent_name;''))]),
                     (lit ''name'', JStr (lit ''Check Correspondent Exists''))]]),
           (lit ''connections'', JObj [(lit ''Other'', JNull)])]"

definition sample_fixed :: "int json" where
  "sample_fixed =
     JObj [(lit ''name'', JStr (lit ''wf'')),
           (lit ''nodes'', JArr
              [JObj [(lit ''name'', JStr (lit ''Check Storage Paths'')),
                     (lit ''parameters'',
                        JObj [(lit ''url'', JStr (lit ''u'')),
                              (lit ''sendQuery'', JBool True),
                              (lit ''queryParameters'', page_size_query)])],
               JObj [(lit ''name'', JStr (lit ''Other'')), (lit ''position'', JNum 3)],
               JObj [(lit ''parameters'',
                        JObj [(lit ''jsCode'',
                               JStr (lit ''x = data.correspondent_canonical || data.correspondent_name;''))]),
                     (lit ''name'', JStr (lit ''Check Correspondent Exists''))]]),
           (lit ''connections'', JObj [(lit ''Other'', JNull)])]"

section \<open>Facts about the normalizer\<close>

lemma last_dropWhile_eq: "dropWhile P xs \<noteq> [] \<Longrightarrow> last (dropWhile P xs) = last xs"
  by (metis last_appendR takeWhile_dropWhile_id)

lemma trimmed_trim: "trimmed (trim s)"
proof -
  let ?u = "dropWhile isWhiteSpace s"
  let ?v = "dropWhile isWhiteSpace (rev ?u)"
  show ?thesis
  proof (cases "?v = []")
    case True
    then show ?thesis by (simp add: trimmed_def trim_def)
  next
    case False
    then have u: "?u \<noteq> []" by (metis dropWhile.simps(1) rev.simps(1))
    have h: "\<not> isWhiteSpace (hd ?v)" using False by (rule hd_dropWhile)
    have "last ?v = last (rev ?u)" using False by (rule last_dropWhile_eq)
    also have "\<dots> = hd ?u" using u by (simp add: last_rev)
    finally have l: "\<not> isWhiteSpace (last ?v)" using hd_dropWhile[OF u] by simp
    show ?thesis using False h l by (simp add: trimmed_def trim_def hd_rev last_rev)
  qed
qed

lemma trim_trimmed: "trimmed s \<Longrightarrow> trim s = s"
proof (cases "s = []")
  case True then show ?thesis by (simp add: trim_def)
next
  case False
  assume "trimmed s"
  with False have h: "\<not> isWhiteSpace (hd s)" and l: "\<not> isWhiteSpace (last s)"
    by (auto simp: trimmed_def)
  have a: "dropWhile isWhiteSpace s = s" using False h by (cases s) auto
  have b: "dropWhile isWhiteSpace (rev s) = rev s" using False l by (cases "rev s") (auto simp: last_rev hd_rev dest!: arg_cong[where f=hd])
  show ?thesis by (simp add: trim_def a b)
qed

lemma trim_idem: "trim (trim s) = trim s"
  by (rule trim_trimmed) (rule trimmed_trim)

lemma trim_eq_Nil: "list_all isWhiteSpace s \<Longrightarrow> trim s = []"
proof -
  assume "list_all isWhiteSpace s"
  then have d: "dropWhile isWhiteSpace s = []" by (simp add: list_all_iff)
  show ?thesis unfolding trim_def d by simp
qed

lemma trim_Nil_iff: "trim s = [] \<longleftrightarrow> list_all isWhiteSpace s"
proof
  assume "trim s = []"
  then have "dropWhile isWhiteSpace (rev (dropWhile isWhiteSpace s)) = []" by (simp add: trim_def)
  then have a: "\<forall>x \<in> set (dropWhile isWhiteSpace s). isWhiteSpace x" by simp
  have "dropWhile isWhiteSpace s = []"
  proof (rule ccontr)
    assume n: "dropWhile isWhiteSpace s \<noteq> []"
    then have "hd (dropWhile isWhiteSpace s) \<in> set (dropWhile isWhiteSpace s)" by simp
    with a hd_dropWhile[OF n] show False by blast
  qed
  then show "list_all isWhiteSpace s" by (simp add: list_all_iff)
qed (rule trim_eq_Nil)

lemmas ev = replace_g.simps lit_def bsl_def isWhiteSpace_def trim_def canon_def is_s_def is_s_ci_def re_punct_def
  re_amp_def re_and_def re_s_plus_def LEGAL_SUFFIXES_def suffix_alternatives_def suffixRe_def
  re_trailing_def re_b_w_def ALIASES_def to_space_def to_empty_def strip_pipeline_def alias_match_def
  normalizeCorrespondent_def re_marks_def alnum_def re_non_alnum_def to_hyphen_def
  strip_hyphens_def generateSlug_def lower_unit_def upper_unit_def latin1_marks_def nfd_unit_def
  latin1_runtime_def

lemma replace_g_inert: "needs_bsl m \<Longrightarrow> bsl \<notin> set s \<Longrightarrow> replace_g m r s = s"
  by (induction s) (auto simp: needs_bsl_def)

lemma needs_bsl_re_amp: "needs_bsl re_amp"
  by (auto simp: needs_bsl_def re_amp_def)

lemma needs_bsl_re_and: "needs_bsl re_and"
  by (auto simp: needs_bsl_def re_and_def canon_def bsl_def)

lemma needs_bsl_re_s_plus: "needs_bsl re_s_plus"
  by (auto simp: needs_bsl_def re_s_plus_def)

lemma needs_bsl_suffixRe: "needs_bsl suffixRe"
  by (auto simp: needs_bsl_def suffixRe_def canon_def bsl_def)

lemma needs_bsl_re_trailing: "needs_bsl re_trailing"
  by (auto simp: needs_bsl_def re_trailing_def)

lemma needs_bsl_re_b_w: "needs_bsl re_b_w"
  by (auto simp: needs_bsl_def re_b_w_def)

lemmas needs_bsl_all = needs_bsl_re_amp needs_bsl_re_and needs_bsl_re_s_plus needs_bsl_suffixRe
  needs_bsl_re_trailing needs_bsl_re_b_w

lemma replace_g_punct: "replace_g re_punct to_space s = map punct_to_space s"
  by (induction s) (auto simp: re_punct_def to_space_def punct_to_space_def)

lemma set_trim: "set (trim s) \<subseteq> set s"
  unfolding trim_def by (metis set_dropWhileD set_rev subsetI)

lemma bsl_trim: "bsl \<notin> set s \<Longrightarrow> bsl \<notin> set (trim s)"
  using set_trim by blast

lemma bsl_punct: "bsl \<notin> set s \<Longrightarrow> bsl \<notin> set (map punct_to_space s)"
  by (auto simp: punct_to_space_def bsl_def)

text \<open>On a text without a backslash the pipeline only turns dots and commas into spaces and trims.\<close>

lemma strip_pipeline_no_bsl:
  assumes "bsl \<notin> set name"
  shows "strip_pipeline rt name = trim (map punct_to_space name)"
proof -
  let ?a = "map punct_to_space name"
  have a: "bsl \<notin> set ?a" using assms by (rule bsl_punct)
  have t: "bsl \<notin> set (trim ?a)" using a by (rule bsl_trim)
  have 1: "replace_g re_s_plus to_space (replace_g re_and to_space
            (replace_g re_amp to_space (replace_g re_punct to_space name))) = ?a"
    using a by (simp add: replace_g_punct replace_g_inert needs_bsl_all)
  have 2: "replace_g re_s_plus to_space (replace_g suffixRe to_empty (trim ?a)) = trim ?a"
    using t by (simp add: replace_g_inert needs_bsl_all)
  have 3: "replace_g re_trailing to_empty (trim ?a) = trim ?a"
    using t by (simp add: replace_g_inert needs_bsl_all)
  have 4: "replace_g re_b_w (toUpperCase rt) (trim ?a) = trim ?a"
    using t by (simp add: replace_g_inert needs_bsl_all)
  show ?thesis
    unfolding strip_pipeline_def Let_def 1 by (simp only: 2 3 4 trim_idem)
qed

declare replace_g.simps [simp del]

lemma eat_iff: "eat p s = Some r \<longleftrightarrow> s = p @ r"
  by (induction p s rule: eat.induct) auto

lemma title_Nil: "replace_g re_b_w uc [] = []"
  by (simp add: re_b_w_def replace_g.simps)

lemma title_Cons:
  "replace_g re_b_w uc (c # cs) =
     (case eat bw (c # cs) of
        Some rest \<Rightarrow> uc bw @ replace_g re_b_w uc rest
      | None \<Rightarrow> c # replace_g re_b_w uc cs)"
proof (cases "eat bw (c # cs)")
  case None
  then show ?thesis by (simp add: re_b_w_def bw_def replace_g.simps)
next
  case (Some rest)
  then have s: "c # cs = bw @ rest" by (simp add: eat_iff)
  then have cs: "cs = [0x62, bsl, 0x77] @ rest" and c: "c = bsl" by (simp_all add: bw_def)
  have m: "re_b_w (c # cs) = Some (Suc 3)"
    using Some by (simp add: re_b_w_def bw_def cs)
  show ?thesis using Some
    by (simp only: replace_g.simps m option.case nat.case) (simp add: cs c bw_def)
qed

lemma title_eq_Nil:
  assumes "uc bw = BW"
  shows "replace_g re_b_w uc s = [] \<longleftrightarrow> s = []"
  using assms by (cases s) (auto simp: title_Nil title_Cons BW_def split: option.splits)

lemma title_hd:
  assumes "uc bw = BW" and "s \<noteq> []" and "\<not> isWhiteSpace (hd s)"
  shows "\<not> isWhiteSpace (hd (replace_g re_b_w uc s))"
proof -
  obtain c cs where s: "s = c # cs" using assms(2) by (cases s) auto
  have b: "\<not> isWhiteSpace bsl" by (simp add: bsl_def isWhiteSpace_def)
  show ?thesis using assms(1,3) b unfolding s title_Cons
    by (cases "eat bw (c # cs)") (simp_all add: BW_def)
qed

lemma title_last:
  assumes u: "uc bw = BW"
  shows "s \<noteq> [] \<Longrightarrow> \<not> isWhiteSpace (last s) \<Longrightarrow> \<not> isWhiteSpace (last (replace_g re_b_w uc s))"
proof (induction s rule: length_induct)
  case (1 s)
  have N: "replace_g re_b_w uc t = [] \<longleftrightarrow> t = []" for t
    using u by (rule title_eq_Nil)
  from 1 obtain c cs where s: "s = c # cs" by (cases s) auto
  show ?case
  proof (cases "eat bw (c # cs)")
    case None
    show ?thesis
    proof (cases "cs = []")
      case True
      then show ?thesis using 1(3) s None by (simp add: title_Cons title_Nil)
    next
      case False
      then have "\<not> isWhiteSpace (last (replace_g re_b_w uc cs))"
        using 1 s by simp
      then show ?thesis using False s by (simp add: title_Cons None N)
    qed
  next
    case (Some rest)
    then have e: "c # cs = bw @ rest" by (simp add: eat_iff)
    show ?thesis
    proof (cases "rest = []")
      case True
      have "\<not> isWhiteSpace 0x57" by (simp add: isWhiteSpace_def)
      then show ?thesis using s Some u True
        by (simp add: title_Cons title_Nil BW_def)
    next
      case False
      have "length rest < length s" using e s by (simp add: bw_def)
      moreover have "last s = last rest" using e s False by simp
      ultimately have "\<not> isWhiteSpace (last (replace_g re_b_w uc rest))"
        using 1 False by simp
      then show ?thesis using False s Some
        by (simp add: title_Cons N)
    qed
  qed
qed

lemma title_trimmed:
  assumes "uc bw = BW" and "trimmed s"
  shows "trimmed (replace_g re_b_w uc s)"
proof (cases "s = []")
  case True
  then show ?thesis by (simp add: trimmed_def title_Nil)
next
  case False
  with assms(2) have h: "\<not> isWhiteSpace (hd s)" and l: "\<not> isWhiteSpace (last s)"
    by (auto simp: trimmed_def)
  show ?thesis unfolding trimmed_def
    using title_hd[of uc s, OF assms(1) False h] title_last[of uc s, OF assms(1) False l] by blast
qed

lemma strip_pipeline_trimmed:
  assumes "toUpperCase rt bw = BW"
  shows "trimmed (strip_pipeline rt name)"
  unfolding strip_pipeline_def Let_def
  using assms trimmed_trim by (rule title_trimmed)

lemma ALIASES_keys_nonempty: "(k, v) \<in> set ALIASES \<Longrightarrow> k \<noteq> []"
  by (auto simp: ALIASES_def lit_def)

lemma ALIASES_values: "(k, v) \<in> set ALIASES \<Longrightarrow>
   v = lit ''Boehringer Ingelheim'' \<or> v = lit ''Magistrat Wien'' \<or> v = lit ''Wiener Linien''
   \<or> v = lit ''Magenta Telekom''"
  by (simp add: ALIASES_def) blast

lemma alias_match_mem: "alias_match rt name = Some (k, v) \<Longrightarrow> (k, v) \<in> set ALIASES"
  unfolding alias_match_def Let_def by (metis find_Some_iff nth_mem)

lemma value_trimmed:
  assumes "(k, v) \<in> set ALIASES" shows "v \<noteq> [] \<and> trimmed v"
proof -
  have "lit ''Boehringer Ingelheim'' \<noteq> [] \<and> trimmed (lit ''Boehringer Ingelheim'')"
    by (simp add: trimmed_def lit_def isWhiteSpace_def)
  moreover have "lit ''Magistrat Wien'' \<noteq> [] \<and> trimmed (lit ''Magistrat Wien'')"
    by (simp add: trimmed_def lit_def isWhiteSpace_def)
  moreover have "lit ''Wiener Linien'' \<noteq> [] \<and> trimmed (lit ''Wiener Linien'')"
    by (simp add: trimmed_def lit_def isWhiteSpace_def)
  moreover have "lit ''Magenta Telekom'' \<noteq> [] \<and> trimmed (lit ''Magenta Telekom'')"
    by (simp add: trimmed_def lit_def isWhiteSpace_def)
  ultimately show ?thesis using ALIASES_values[OF assms] by (elim disjE) simp_all
qed

lemma Unknown_trimmed: "lit ''Unknown'' \<noteq> [] \<and> trimmed (lit ''Unknown'')"
  by (simp add: trimmed_def lit_def isWhiteSpace_def)

lemma ws_not_punct: "isWhiteSpace c \<Longrightarrow> punct_to_space c = c"
  by (auto simp: isWhiteSpace_def punct_to_space_def)

lemma ws_not_bsl: "isWhiteSpace c \<Longrightarrow> c \<noteq> bsl"
  by (auto simp: isWhiteSpace_def bsl_def)

lemma strip_pipeline_blank:
  assumes "list_all isWhiteSpace name"
  shows "strip_pipeline rt name = []"
proof -
  have "bsl \<notin> set name" using assms ws_not_bsl by (auto simp: list_all_iff)
  then have "strip_pipeline rt name = trim (map punct_to_space name)"
    by (rule strip_pipeline_no_bsl)
  also have "map punct_to_space name = name"
    using assms by (simp add: list_all_iff map_idI ws_not_punct)
  finally show ?thesis using assms by (simp add: trim_eq_Nil)
qed

lemma alias_match_blank:
  assumes "list_all isWhiteSpace (toLowerCase rt name)"
  shows "alias_match rt name = None"
proof -
  have "trim (toLowerCase rt name) = []" using assms by (rule trim_eq_Nil)
  then show ?thesis
    unfolding alias_match_def Let_def
    by (auto simp: find_None_iff dest: ALIASES_keys_nonempty)
qed

lemma lower_unit_ws: "isWhiteSpace c \<Longrightarrow> isWhiteSpace (lower_unit c)"
  by (auto simp: isWhiteSpace_def lower_unit_def)

lemma latin1_lower_ws:
  "list_all isWhiteSpace s \<Longrightarrow> list_all isWhiteSpace (toLowerCase latin1_runtime s)"
  by (simp add: latin1_runtime_def list_all_iff lower_unit_ws)

text \<open>The cut to 50 characters is the last step of the slug.\<close>

lemma generateSlug_length: "length (generateSlug rt name) \<le> 50"
  by (simp add: generateSlug_def)

section \<open>Facts about \<open>apply_fixes\<close>\<close>

lemma for_each_Inr_iff:
  "for_each f xs = Inr ys \<longleftrightarrow> list_all2 (\<lambda>x y. f x = Inr y) xs ys"
proof (induction xs arbitrary: ys)
  case Nil
  then show ?case by auto
next
  case (Cons x xs)
  show ?case
  proof (cases ys)
    case Nil
    then show ?thesis by (auto split: sum.splits)
  next
    case (Cons y ys')
    then show ?thesis using Cons.IH[of ys'] by (auto split: sum.splits)
  qed
qed

lemma for_each_frame:
  assumes "for_each f xs = Inr ys"
      and "\<And>x y. f x = Inr y \<Longrightarrow> \<not> targeted x \<Longrightarrow> y = x"
  shows "length ys = length xs \<and> (\<forall>i<length xs. \<not> targeted (xs ! i) \<longrightarrow> ys ! i = xs ! i)"
proof -
  from assms(1) have l: "list_all2 (\<lambda>x y. f x = Inr y) xs ys" by (simp add: for_each_Inr_iff)
  then have "length ys = length xs" by (simp add: list_all2_lengthD)
  moreover have "\<forall>i<length xs. \<not> targeted (xs ! i) \<longrightarrow> ys ! i = xs ! i"
    using l assms(2) by (auto dest: list_all2_nthD)
  ultimately show ?thesis by simp
qed

lemma name_is_targeted:
  assumes "name_is nm node = Inr True" and "nm \<in> set TARGET_NAMES"
  shows "targeted node"
  using assms
  by (auto simp: name_is_def targeted_def dict_get_def split: json.splits option.splits)

lemma guarded_frame:
  assumes "(case name_is nm node of Inl e \<Rightarrow> Inl e | Inr False \<Rightarrow> Inr node | Inr True \<Rightarrow> body) = Inr node'"
      and "nm \<in> set TARGET_NAMES" and "\<not> targeted node"
  shows "node' = node"
proof (cases "name_is nm node")
  case (Inl e)
  with assms(1) show ?thesis by simp
next
  case (Inr b)
  with assms(2,3) name_is_targeted[of nm node] have "b = False" by auto
  with Inr assms(1) show ?thesis by simp
qed

lemma fix1_frame: "fix1 n = Inr n' \<Longrightarrow> \<not> targeted n \<Longrightarrow> n' = n"
  unfolding fix1_def by (erule guarded_frame) (simp_all add: TARGET_NAMES_def)

lemma fix2_frame: "fix2 G n = Inr n' \<Longrightarrow> \<not> targeted n \<Longrightarrow> n' = n"
  unfolding fix2_def by (erule guarded_frame) (simp_all add: TARGET_NAMES_def)

lemma fix3_frame: "fix3 H n = Inr n' \<Longrightarrow> \<not> targeted n \<Longrightarrow> n' = n"
  unfolding fix3_def by (erule guarded_frame) (simp_all add: TARGET_NAMES_def)

lemma fix4_frame: "fix4 n = Inr n' \<Longrightarrow> \<not> targeted n \<Longrightarrow> n' = n"
  unfolding fix4_def by (erule guarded_frame) (simp_all add: TARGET_NAMES_def)

lemma fix5_frame: "fix5 n = Inr n' \<Longrightarrow> \<not> targeted n \<Longrightarrow> n' = n"
  unfolding fix5_def by (erule guarded_frame) (simp_all add: TARGET_NAMES_def)

lemma fix_nodes_frame:
  assumes "fix_nodes G H ns = Inr ns'"
  shows "length ns' = length ns \<and> (\<forall>i<length ns. \<not> targeted (ns ! i) \<longrightarrow> ns' ! i = ns ! i)"
proof -
  from assms obtain n1 n2 n3 n4 where
    1: "for_each fix1 ns = Inr n1" and 2: "for_each (fix2 G) n1 = Inr n2" and
    3: "for_each (fix3 H) n2 = Inr n3" and 4: "for_each fix4 n3 = Inr n4" and
    5: "for_each fix5 n4 = Inr ns'"
    by (auto simp: fix_nodes_def split: sum.splits)
  note f1 = for_each_frame[OF 1 fix1_frame]
  note f2 = for_each_frame[OF 2 fix2_frame]
  note f3 = for_each_frame[OF 3 fix3_frame]
  note f4 = for_each_frame[OF 4 fix4_frame]
  note f5 = for_each_frame[OF 5 fix5_frame]
  from f1 f2 f3 f4 f5 show ?thesis by simp
qed

lemma map_of_setitem: "map_of (setitem k v d) = (map_of d)(k \<mapsto> v)"
  by (induction d) auto

lemma key_nodes_connections: "lit ''nodes'' \<noteq> lit ''connections''"
  by (simp add: lit_def)

lemma apply_fixes_frame:
  assumes "apply_fixes G H w = Inr w'"
  shows "length (nodes_of w') = length (nodes_of w) \<and> connections_of w' = connections_of w
         \<and> (\<forall>i<length (nodes_of w). \<not> targeted (nodes_of w ! i) \<longrightarrow> nodes_of w' ! i = nodes_of w ! i)"
proof (cases w)
  case (JObj d)
  show ?thesis
  proof (cases "dict_get d (lit ''nodes'') (JArr [])")
    case (JArr ns)
    with assms JObj obtain ns' where fx: "fix_nodes G H ns = Inr ns'"
      and w': "w' = JObj (if map_of d (lit ''nodes'') = None then d else setitem (lit ''nodes'') (JArr ns') d)"
      by (auto simp: apply_fixes_def split: sum.splits)
    note fr = fix_nodes_frame[OF fx]
    show ?thesis
    proof (cases "map_of d (lit ''nodes'')")
      case None
      then show ?thesis using w' JObj by simp
    next
      case (Some v)
      with JArr have v: "v = JArr ns" by (simp add: dict_get_def)
      have a: "nodes_of w = ns" using JObj Some v by (simp add: nodes_of_def)
      have b: "nodes_of w' = ns'" using w' Some by (simp add: nodes_of_def map_of_setitem)
      have c: "connections_of w' = connections_of w"
        using w' Some JObj key_nodes_connections by (simp add: connections_of_def map_of_setitem)
      show ?thesis using fr a b c by simp
    qed
  qed (use assms JObj in \<open>auto simp: apply_fixes_def split: if_splits\<close>)
qed (use assms in \<open>auto simp: apply_fixes_def\<close>)

lemma key_name_parameters: "lit ''parameters'' \<noteq> lit ''name''"
  by (simp add: lit_def)

lemma names_distinct:
  "lit ''Check Storage Paths'' \<noteq> lit ''Check Correspondent Exists''"
  "lit ''Check Storage Paths'' \<noteq> lit ''Create Correspondent''"
  "lit ''Generate Storage Path'' \<noteq> lit ''Check Correspondent Exists''"
  "lit ''Generate Storage Path'' \<noteq> lit ''Create Correspondent''"
  "lit ''Get Storage Path ID'' \<noteq> lit ''Check Correspondent Exists''"
  "lit ''Get Storage Path ID'' \<noteq> lit ''Create Correspondent''"
  "lit ''Check Correspondent Exists'' \<noteq> lit ''Create Correspondent''"
  by (simp_all add: lit_def)

text \<open>A well-formed node named \<open>nm\<close>, one of the five, has a dict of parameters.\<close>

lemma wf_named:
  assumes "wf_node node" and "name_is nm node = Inr True" and "nm \<in> set TARGET_NAMES"
  obtains d p where "node = JObj d" and "map_of d (lit ''name'') = Some (JStr nm)"
    and "map_of d (lit ''parameters'') = Some (JObj p)"
proof -
  from assms(2) obtain d where d: "node = JObj d" and n: "map_of d (lit ''name'') = Some (JStr nm)"
    by (auto simp: name_is_def dict_get_def split: json.splits option.splits)
  have "targeted node" using assms(2,3) by (rule name_is_targeted)
  with assms(1) d obtain p where "map_of d (lit ''parameters'') = Some (JObj p)"
    by (auto simp: wf_node_def split: option.splits json.splits)
  with d n that show ?thesis by blast
qed

lemma name_is_total: "wf_node node \<Longrightarrow> \<exists>b. name_is nm node = Inr b"
  by (auto simp: wf_node_def name_is_def split: json.splits)

text \<open>Assigning a parameter of such a node succeeds and keeps the name.\<close>

lemma assign_parameter_ok:
  assumes "map_of d (lit ''parameters'') = Some (JObj p)"
  shows "assign_parameter (JObj d) k v = Inr (JObj (setitem (lit ''parameters'') (JObj (setitem k v p)) d))"
  using assms by (simp add: assign_parameter_def node_parameters_def getitem_def)

lemma wf_after_assign:
  assumes "map_of d (lit ''name'') = Some (JStr nm)" and "nm \<in> set TARGET_NAMES"
      and "nm = lit ''Check Correspondent Exists'' \<Longrightarrow> patchable (lit ''jsCode'') p'"
      and "nm = lit ''Create Correspondent'' \<Longrightarrow> patchable (lit ''jsonBody'') p'"
  shows "wf_node (JObj (setitem (lit ''parameters'') (JObj p') d))"
  using assms key_name_parameters
  by (auto simp: wf_node_def targeted_def map_of_setitem)

lemma fix1_total:
  assumes "wf_node node" shows "\<exists>node'. fix1 node = Inr node' \<and> wf_node node'"
proof -
  from assms obtain b where b: "name_is (lit ''Check Storage Paths'') node = Inr b"
    using name_is_total by blast
  show ?thesis
  proof (cases b)
    case False
    with b assms show ?thesis by (simp add: fix1_def)
  next
    case True
    have t: "lit ''Check Storage Paths'' \<in> set TARGET_NAMES" by (simp add: TARGET_NAMES_def)
    from assms b True t obtain d p where d: "node = JObj d"
      and n: "map_of d (lit ''name'') = Some (JStr (lit ''Check Storage Paths''))"
      and p: "map_of d (lit ''parameters'') = Some (JObj p)"
      by (auto elim: wf_named)
    let ?p1 = "setitem (lit ''sendQuery'') (JBool True) p"
    let ?d1 = "setitem (lit ''parameters'') (JObj ?p1) d"
    let ?p2 = "setitem (lit ''queryParameters'') page_size_query ?p1"
    let ?d2 = "setitem (lit ''parameters'') (JObj ?p2) ?d1"
    have a1: "assign_parameter node (lit ''sendQuery'') (JBool True) = Inr (JObj ?d1)"
      unfolding d using p by (rule assign_parameter_ok)
    have p1: "map_of ?d1 (lit ''parameters'') = Some (JObj ?p1)" by (simp add: map_of_setitem)
    have n1: "map_of ?d1 (lit ''name'') = Some (JStr (lit ''Check Storage Paths''))"
      using n key_name_parameters by (simp add: map_of_setitem)
    have a2: "assign_parameter (JObj ?d1) (lit ''queryParameters'') page_size_query = Inr (JObj ?d2)"
      using p1 by (rule assign_parameter_ok)
    have "wf_node (JObj ?d2)"
      using n1 t names_distinct by (intro wf_after_assign) auto
    then show ?thesis using b True a1 a2 by (simp add: fix1_def)
  qed
qed

lemma set_code_total:
  assumes "wf_node node" and t: "nm \<in> set TARGET_NAMES"
      and "nm \<noteq> lit ''Create Correspondent''"
  shows "\<exists>node'. (case name_is nm node of Inl e \<Rightarrow> Inl e | Inr False \<Rightarrow> Inr node
            | Inr True \<Rightarrow> assign_parameter node (lit ''jsCode'') (JStr code)) = Inr node' \<and> wf_node node'"
proof -
  from assms obtain b where b: "name_is nm node = Inr b"
    using name_is_total by blast
  show ?thesis
  proof (cases b)
    case False
    with b assms show ?thesis by simp
  next
    case True
    from assms b True obtain d p where d: "node = JObj d"
      and n: "map_of d (lit ''name'') = Some (JStr nm)"
      and p: "map_of d (lit ''parameters'') = Some (JObj p)"
      by (auto elim: wf_named)
    let ?p1 = "setitem (lit ''jsCode'') (JStr code) p"
    let ?d1 = "setitem (lit ''parameters'') (JObj ?p1) d"
    have a1: "assign_parameter node (lit ''jsCode'') (JStr code) = Inr (JObj ?d1)"
      unfolding d using p by (rule assign_parameter_ok)
    have "wf_node (JObj ?d1)"
      using n t assms(3) by (intro wf_after_assign) (auto simp: patchable_def map_of_setitem)
    then show ?thesis using b True a1 by simp
  qed
qed

lemma fix2_total:
  assumes "wf_node node" shows "\<exists>node'. fix2 G node = Inr node' \<and> wf_node node'"
  unfolding fix2_def using assms
  by (rule set_code_total) (simp_all add: TARGET_NAMES_def names_distinct)

lemma fix3_total:
  assumes "wf_node node" shows "\<exists>node'. fix3 H node = Inr node' \<and> wf_node node'"
  unfolding fix3_def using assms
  by (rule set_code_total) (simp_all add: TARGET_NAMES_def names_distinct)

lemma patch_total:
  assumes w: "wf_node node" and t: "nm \<in> set TARGET_NAMES"
      and k: "(nm = lit ''Check Correspondent Exists'' \<and> key = lit ''jsCode'')
              \<or> (nm = lit ''Create Correspondent'' \<and> key = lit ''jsonBody'')"
  shows "\<exists>node'. (case name_is nm node of Inl e \<Rightarrow> Inl e | Inr False \<Rightarrow> Inr node
            | Inr True \<Rightarrow> patch_parameter key old new node) = Inr node' \<and> wf_node node'"
proof -
  from w obtain b where b: "name_is nm node = Inr b"
    using name_is_total by blast
  show ?thesis
  proof (cases b)
    case False
    with b w show ?thesis by simp
  next
    case True
    from w b True t obtain d p where d: "node = JObj d"
      and n: "map_of d (lit ''name'') = Some (JStr nm)"
      and p: "map_of d (lit ''parameters'') = Some (JObj p)"
      by (auto elim: wf_named)
    have tg: "targeted node" using b True t by (auto intro: name_is_targeted)
    have pk: "patchable key p"
      using w tg d n p k names_distinct by (auto simp: wf_node_def)
    have np: "node_parameters node = Inr (JObj p)"
      using d p by (simp add: node_parameters_def getitem_def)
    show ?thesis
    proof (cases "map_of p key")
      case None
      have "str_contains (lit ''correspondent_name'') [] = False" by (simp add: lit_def)
      then have "patch_parameter key old new node = Inr node"
        using np None by (simp add: patch_parameter_def dict_get_def py_in_def)
      then show ?thesis using b True w by simp
    next
      case (Some v)
      with pk obtain s where v: "v = JStr s" by (auto simp: patchable_def split: json.splits)
      show ?thesis
      proof (cases "str_contains (lit ''correspondent_name'') s")
        case False
        then have "patch_parameter key old new node = Inr node"
          using np Some v by (simp add: patch_parameter_def dict_get_def py_in_def)
        then show ?thesis using b True w by simp
      next
        case c: True
        let ?p1 = "setitem key (JStr (str_replace old new s)) p"
        let ?d1 = "setitem (lit ''parameters'') (JObj ?p1) d"
        have a1: "assign_parameter node key (JStr (str_replace old new s)) = Inr (JObj ?d1)"
          unfolding d using p by (rule assign_parameter_ok)
        have pp: "patch_parameter key old new node = Inr (JObj ?d1)"
          using np Some v c a1 by (simp add: patch_parameter_def dict_get_def py_in_def)
        have "wf_node (JObj ?d1)"
          using n t k names_distinct
          by (intro wf_after_assign) (auto simp: patchable_def map_of_setitem)
        then show ?thesis using b True pp by simp
      qed
    qed
  qed
qed

lemma fix4_total:
  assumes "wf_node node" shows "\<exists>node'. fix4 node = Inr node' \<and> wf_node node'"
  unfolding fix4_def using assms
  by (rule patch_total) (simp_all add: TARGET_NAMES_def)

lemma fix5_total:
  assumes "wf_node node" shows "\<exists>node'. fix5 node = Inr node' \<and> wf_node node'"
  unfolding fix5_def using assms
  by (rule patch_total) (simp_all add: TARGET_NAMES_def)

lemma for_each_total:
  assumes "\<And>x. wf_node x \<Longrightarrow> \<exists>y. f x = Inr y \<and> wf_node y"
  shows "list_all wf_node xs \<Longrightarrow> \<exists>ys. for_each f xs = Inr ys \<and> list_all wf_node ys"
proof (induction xs)
  case Nil
  then show ?case by simp
next
  case (Cons x xs)
  from Cons.prems have x: "wf_node x" and xs: "list_all wf_node xs" by simp_all
  from assms[OF x] obtain y where "f x = Inr y" "wf_node y" by blast
  moreover from Cons.IH[OF xs] obtain ys where "for_each f xs = Inr ys" "list_all wf_node ys" by blast
  ultimately show ?case by simp
qed

lemma fix_nodes_total:
  assumes "list_all wf_node ns"
  shows "\<exists>ns'. fix_nodes G H ns = Inr ns'"
proof -
  from for_each_total[of fix1, OF fix1_total assms] obtain n1 where
    1: "for_each fix1 ns = Inr n1" "list_all wf_node n1" by blast
  from for_each_total[of "fix2 G", OF fix2_total 1(2)] obtain n2 where
    2: "for_each (fix2 G) n1 = Inr n2" "list_all wf_node n2" by blast
  from for_each_total[of "fix3 H", OF fix3_total 2(2)] obtain n3 where
    3: "for_each (fix3 H) n2 = Inr n3" "list_all wf_node n3" by blast
  from for_each_total[of fix4, OF fix4_total 3(2)] obtain n4 where
    4: "for_each fix4 n3 = Inr n4" "list_all wf_node n4" by blast
  from for_each_total[of fix5, OF fix5_total 4(2)] obtain n5 where
    5: "for_each fix5 n4 = Inr n5" by blast
  show ?thesis using 1 2 3 4 5 by (simp add: fix_nodes_def)
qed

lemma apply_fixes_total:
  assumes "well_formed w"
  shows "\<exists>w'. apply_fixes G H w = Inr w'"
proof -
  from assms obtain d where d: "w = JObj d"
    by (auto simp: well_formed_def split: json.splits)
  show ?thesis
  proof (cases "map_of d (lit ''nodes'')")
    case None
    have "fix_nodes G H [] = Inr ([] :: 'a json list)" by (simp add: fix_nodes_def)
    then show ?thesis using d None by (simp add: apply_fixes_def dict_get_def)
  next
    case (Some v)
    with assms d obtain ns where v: "v = JArr ns" and l: "list_all wf_node ns"
      by (auto simp: well_formed_def split: json.splits)
    from fix_nodes_total[OF l] obtain ns' where "fix_nodes G H ns = Inr ns'" by blast
    then show ?thesis using d Some v by (simp add: apply_fixes_def dict_get_def)
  qed
qed

lemmas pv = dict_get_def getitem_def name_is_def node_parameters_def assign_parameter_def py_in_def
  fix1_def fix2_def fix3_def fix4_def fix5_def patch_parameter_def str_replace_def
  fix_nodes_def apply_fixes_def

lemma sample_well_formed: "well_formed sample_workflow"
  by (simp add: sample_workflow_def well_formed_def wf_node_def targeted_def TARGET_NAMES_def
      patchable_def lit_def)

lemma sample_run:
  "apply_fixes (lit ''generate'') (lit ''get'') sample_workflow = Inr sample_fixed"
  by (simp add: sample_workflow_def sample_fixed_def pv lit_def)

section \<open>The claims\<close>

text \<open>
  Claim C1. A value that is not a string, and a string that is empty or holds only white
  space, is normalized to \<open>Unknown\<close>. The function is total: no case of it raises. The
  hypothesis says of the runtime that lower-casing white space gives white space, as
  \<open>toLowerCase\<close> does.
\<close>

theorem normalize_blank_or_non_string:
  assumes ws: "\<And>s. list_all isWhiteSpace s \<Longrightarrow> list_all isWhiteSpace (toLowerCase rt s)"
      and v: "blank_or_non_string v"
  shows "normalizeCorrespondent rt v = lit ''Unknown''"
proof (cases v)
  case (JSString name)
  with v have "trim name = []" by (simp add: blank_or_non_string_def)
  then have a: "list_all isWhiteSpace name" by (simp add: trim_Nil_iff)
  then have "alias_match rt name = None" by (intro alias_match_blank ws)
  moreover have "strip_pipeline rt name = []" using a by (rule strip_pipeline_blank)
  ultimately show ?thesis using JSString by (simp add: normalizeCorrespondent_def)
qed (simp_all add: normalizeCorrespondent_def)

theorem normalize_blank_or_non_string_witness:
  "blank_or_non_string (JSString [0x20, 0x09, 0xA0] :: (int, unit) jsvalue)
   \<and> normalizeCorrespondent latin1_runtime (JSString [0x20, 0x09, 0xA0] :: (int, unit) jsvalue)
       = lit ''Unknown''
   \<and> blank_or_non_string (JSNull :: (int, unit) jsvalue)
   \<and> normalizeCorrespondent latin1_runtime (JSNull :: (int, unit) jsvalue) = lit ''Unknown''"
proof -
  have a: "blank_or_non_string (JSString [0x20, 0x09, 0xA0] :: (int, unit) jsvalue)"
    by (simp add: blank_or_non_string_def trim_def isWhiteSpace_def)
  have b: "blank_or_non_string (JSNull :: (int, unit) jsvalue)"
    by (simp add: blank_or_non_string_def)
  show ?thesis
    using a b normalize_blank_or_non_string [OF latin1_lower_ws a]
      normalize_blank_or_non_string [OF latin1_lower_ws b]
    by simp
qed

text \<open>
  Claim C2. When the lower-cased, trimmed name starts with the key of the entry \<open>i\<close> of
  \<open>ALIASES\<close> and with the key of no entry before it, the result is the value of that
  entry as it stands, whatever follows the key in the name. The hypothesis says of the
  runtime that the empty string is lower-cased to itself.
\<close>

theorem normalize_alias_first_match:
  assumes lc: "toLowerCase rt [] = []"
      and i: "i < length ALIASES"
      and hit: "prefix (fst (ALIASES ! i)) (trim (toLowerCase rt name))"
      and first: "\<forall>j<i. \<not> prefix (fst (ALIASES ! j)) (trim (toLowerCase rt name))"
  shows "normalizeCorrespondent rt (JSString name) = snd (ALIASES ! i)"
proof -
  have k: "fst (ALIASES ! i) \<noteq> []"
    using i ALIASES_keys_nonempty[of "fst (ALIASES ! i)" "snd (ALIASES ! i)"] by simp
  have ne: "name \<noteq> []"
  proof
    assume "name = []"
    then have "trim (toLowerCase rt name) = []" by (simp add: lc trim_def)
    with hit k show False by simp
  qed
  have "alias_match rt name = Some (ALIASES ! i)"
    unfolding alias_match_def Let_def find_Some_iff
    using i hit first by (auto simp: case_prod_beta)
  then show ?thesis using ne
    by (simp add: normalizeCorrespondent_def case_prod_beta)
qed

theorem normalize_alias_first_match_witness:
  "normalizeCorrespondent latin1_runtime (JSString (lit ''MAGENTA Telekom GmbH'') :: (int, unit) jsvalue) = lit ''Magenta Telekom''"
proof -
  let ?l = "trim (toLowerCase latin1_runtime (lit ''MAGENTA Telekom GmbH''))"
  have l: "?l = lit ''magenta telekom gmbh''" by (simp add: ev)
  have 1: "toLowerCase latin1_runtime [] = []" by (simp add: latin1_runtime_def)
  have 2: "(5::nat) < length ALIASES" by (simp add: ALIASES_def)
  have 3: "prefix (fst (ALIASES ! 5)) ?l"
    unfolding l by (simp add: ALIASES_def lit_def)
  have 4: "\<forall>j<5. \<not> prefix (fst (ALIASES ! j)) ?l"
  proof (intro allI impI)
    fix j :: nat assume "j < 5"
    then have "j = 0 \<or> j = 1 \<or> j = 2 \<or> j = 3 \<or> j = 4" by arith
    then show "\<not> prefix (fst (ALIASES ! j)) ?l"
      unfolding l by (elim disjE) (simp_all add: ALIASES_def lit_def)
  qed
  have 5: "snd (ALIASES ! 5) = lit ''Magenta Telekom''" by (simp add: ALIASES_def)
  show ?thesis using normalize_alias_first_match [OF 1 2 3 4] 5 by simp
qed

text \<open>
  Claim C3, at its input: \<open>Acme GmbH & Co\<close> comes back as it went in. The patterns that
  were to remove the connector and the legal suffixes and to title-case each ask for a
  backslash in the name, and the name has none.
\<close>

theorem normalize_acme_gmbh_co:
  "normalizeCorrespondent latin1_runtime (JSString (lit ''Acme GmbH & Co'') :: (int, unit) jsvalue)
     = lit ''Acme GmbH & Co''"
  by (simp add: ev)

text \<open>
  Claim C4, at a name of 49 letters, a space and one more letter: the slug is the 49
  letters and a hyphen. The hyphens at the two ends are removed before the cut to 50
  characters, so the cut can leave a hyphen at the end.
\<close>

theorem generateSlug_cut_leaves_hyphen:
  "generateSlug latin1_runtime (lit ''aaaaaaaaaaaaaaaaaaaaaaaaaaaaaaaaaaaaaaaaaaaaaaaaa b'')
     = lit ''aaaaaaaaaaaaaaaaaaaaaaaaaaaaaaaaaaaaaaaaaaaaaaaaa-''"
  by (simp add: ev)

text \<open>
  Claim C5. The result of \<open>normalizeCorrespondent\<close> is never the empty string; and for a
  non-empty string that starts with no alias key it is \<open>Unknown\<close> when the stripping
  pipeline leaves the empty string, and what the pipeline leaves otherwise.
\<close>

theorem normalize_nonempty:
  "normalizeCorrespondent rt v \<noteq> []
   \<and> (\<forall>name. v = JSString name \<and> name \<noteq> [] \<and> alias_match rt name = None \<longrightarrow>
         normalizeCorrespondent rt v
           = (if strip_pipeline rt name = [] then lit ''Unknown'' else strip_pipeline rt name))"
proof
  show "normalizeCorrespondent rt v \<noteq> []"
  proof (cases v)
    case (JSString name)
    show ?thesis
    proof (cases "alias_match rt name")
      case None
      then show ?thesis using JSString Unknown_trimmed
        by (simp add: normalizeCorrespondent_def Let_def)
    next
      case (Some kv)
      then obtain k w where kv: "kv = (k, w)" by (cases kv)
      with Some have "w \<noteq> []" using value_trimmed alias_match_mem by blast
      then show ?thesis using JSString Some kv Unknown_trimmed
        by (simp add: normalizeCorrespondent_def)
    qed
  qed (simp_all add: normalizeCorrespondent_def lit_def)
next
  show "\<forall>name. v = JSString name \<and> name \<noteq> [] \<and> alias_match rt name = None \<longrightarrow>
          normalizeCorrespondent rt v
            = (if strip_pipeline rt name = [] then lit ''Unknown'' else strip_pipeline rt name)"
    by (simp add: normalizeCorrespondent_def Let_def)
qed

theorem normalize_nonempty_witness:
  "lit '' ., '' \<noteq> []
   \<and> alias_match latin1_runtime (lit '' ., '') = None
   \<and> strip_pipeline latin1_runtime (lit '' ., '') = []
   \<and> normalizeCorrespondent latin1_runtime (JSString (lit '' ., '') :: (int, unit) jsvalue)
       = lit ''Unknown''
   \<and> normalizeCorrespondent latin1_runtime (JSString (lit '' ., '') :: (int, unit) jsvalue) \<noteq> []"
proof -
  have n: "lit '' ., '' \<noteq> []"
    by (simp add: lit_def)
  have a: "alias_match latin1_runtime (lit '' ., '') = None"
    by (simp add: ev)
  have p: "strip_pipeline latin1_runtime (lit '' ., '') = []"
    by (simp add: ev)
  show ?thesis
    using n a p
      normalize_nonempty [of latin1_runtime "JSString (lit '' ., '') :: (int, unit) jsvalue"]
    by auto
qed

text \<open>
  Claim C6, at its inputs, the first letter being A with diaeresis (code unit \<open>0xC4\<close>):
  the name with \<open>GmbH\<close> comes back as it went in, and the slug of the bare name is
  \<open>a-rger\<close>. The class that was to remove the combining marks holds the characters from
  \<open>0\<close> to the backslash, \<open>u\<close> and \<open>f\<close> instead, so the mark \<open>0x308\<close> stays and becomes a
  hyphen.
\<close>

theorem normalize_and_slug_a_diaeresis:
  "normalizeCorrespondent latin1_runtime (JSString (0xC4 # lit ''rger GmbH'') :: (int, unit) jsvalue)
     = 0xC4 # lit ''rger GmbH''
   \<and> generateSlug latin1_runtime (0xC4 # lit ''rger'') = lit ''a-rger''"
  by (simp add: ev)

text \<open>
  Claim C7, at the input \<open>acme\<close>: the result is \<open>acme\<close>, its first letter in lower case.
  The title-casing pattern matches the four characters backslash, \<open>b\<close>, backslash, \<open>w\<close>
  and nothing else.
\<close>

theorem normalize_acme_lower_case:
  "normalizeCorrespondent latin1_runtime (JSString (lit ''acme'') :: (int, unit) jsvalue)
     = lit ''acme''"
  by (simp add: ev)

text \<open>
  Claim C8, at a name with backslashes: two backslashes, \<open>bco\<close>, a backslash, \<open>bbco\<close>, a
  backslash and \<open>b\<close>. The suffix pattern, which matches the text backslash, \<open>b\<close>, a
  suffix, backslash, \<open>b\<close>, removes its one match, and what is left closes up to a new
  match: the result is backslash, \<open>bco\<close>, backslash, \<open>b\<close>. That result starts with no
  alias key, and normalizing it gives \<open>Unknown\<close>, not the result again.
\<close>

theorem normalize_twice_differs:
  "normalizeCorrespondent latin1_runtime
     (JSString ([bsl, bsl] @ lit ''bco'' @ [bsl] @ lit ''bbco'' @ [bsl] @ lit ''b'')
        :: (int, unit) jsvalue)
     = [bsl] @ lit ''bco'' @ [bsl] @ lit ''b''
   \<and> alias_match latin1_runtime ([bsl] @ lit ''bco'' @ [bsl] @ lit ''b'') = None
   \<and> normalizeCorrespondent latin1_runtime
       (JSString ([bsl] @ lit ''bco'' @ [bsl] @ lit ''b'') :: (int, unit) jsvalue)
     = lit ''Unknown''"
  by (simp add: ev)

text \<open>
  Claim C9. The result is not empty and has no white space at its start or at its end.
  The hypothesis says of the runtime that the four characters backslash, \<open>b\<close>, backslash,
  \<open>w\<close> are upper-cased to backslash, \<open>B\<close>, backslash, \<open>W\<close>, as \<open>toUpperCase\<close> does.
\<close>

theorem normalize_trimmed:
  assumes uc: "toUpperCase rt [bsl, 0x62, bsl, 0x77] = [bsl, 0x42, bsl, 0x57]"
  shows "normalizeCorrespondent rt v \<noteq> []
         \<and> \<not> isWhiteSpace (hd (normalizeCorrespondent rt v))
         \<and> \<not> isWhiteSpace (last (normalizeCorrespondent rt v))"
proof -
  have u: "toUpperCase rt bw = BW" using uc by (simp add: bw_def BW_def)
  have "normalizeCorrespondent rt v \<noteq> [] \<and> trimmed (normalizeCorrespondent rt v)"
  proof (cases v)
    case (JSString name)
    show ?thesis
    proof (cases "alias_match rt name")
      case None
      then show ?thesis using JSString Unknown_trimmed strip_pipeline_trimmed[OF u, of name]
        by (simp add: normalizeCorrespondent_def Let_def)
    next
      case (Some kv)
      then obtain k w where kv: "kv = (k, w)" by (cases kv)
      with Some have "w \<noteq> [] \<and> trimmed w" using value_trimmed alias_match_mem by blast
      then show ?thesis using JSString Some kv Unknown_trimmed
        by (simp add: normalizeCorrespondent_def)
    qed
  qed (simp_all add: normalizeCorrespondent_def Unknown_trimmed)
  then show ?thesis by (auto simp: trimmed_def)
qed

theorem normalize_trimmed_witness:
  "toUpperCase latin1_runtime [bsl, 0x62, bsl, 0x77] = [bsl, 0x42, bsl, 0x57]
  \<and> normalizeCorrespondent latin1_runtime (JSString (lit '' x y. '') :: (int, unit) jsvalue) = lit ''x y''
  \<and> \<not> isWhiteSpace (hd (lit ''x y'')) \<and> \<not> isWhiteSpace (last (lit ''x y''))"
proof -
  have 1: "toUpperCase latin1_runtime [bsl, 0x62, bsl, 0x77] = [bsl, 0x42, bsl, 0x57]"
    by (simp add: latin1_runtime_def upper_unit_def bsl_def)
  have 2: "normalizeCorrespondent latin1_runtime (JSString (lit '' x y. '') :: (int, unit) jsvalue) = lit ''x y''"
    by (simp add: ev)
  show ?thesis using 1 2 normalize_trimmed [OF 1, of "JSString (lit '' x y. '') :: (int, unit) jsvalue"] by simp
qed

text \<open>
  Claim C10 as stated fails: on a workflow whose node \<open>Check Storage Paths\<close> has no
  \<open>parameters\<close>, \<open>node['parameters']\<close> raises \<open>KeyError\<close> and nothing is returned.
\<close>

theorem apply_fixes_missing_parameters_raises:
  "apply_fixes (lit ''generate'') (lit ''get'')
     (JObj [(lit ''nodes'', JArr [JObj [(lit ''name'', JStr (lit ''Check Storage Paths''))]])]
        :: int json)
   = Inl KeyError"
  by (simp add: pv lit_def)

text \<open>
  Claim C10, amended: on a workflow of the shape \<open>well_formed\<close>, \<open>apply_fixes\<close> returns a
  workflow with as many nodes, with the same value under \<open>connections\<close>, and with every
  node whose name is none of the five names as it was.
\<close>

theorem apply_fixes_frame_well_formed:
  assumes "well_formed workflow"
  shows "\<exists>workflow'. apply_fixes GENERATE_STORAGE_PATH_CODE GET_STORAGE_PATH_ID_CODE workflow
             = Inr workflow'
           \<and> length (nodes_of workflow') = length (nodes_of workflow)
           \<and> connections_of workflow' = connections_of workflow
           \<and> (\<forall>i<length (nodes_of workflow).
                 \<not> targeted (nodes_of workflow ! i)
                 \<longrightarrow> nodes_of workflow' ! i = nodes_of workflow ! i)"
proof -
  from apply_fixes_total[OF assms] obtain workflow' where
    r: "apply_fixes GENERATE_STORAGE_PATH_CODE GET_STORAGE_PATH_ID_CODE workflow = Inr workflow'"
    by blast
  from apply_fixes_frame[OF r] r show ?thesis by blast
qed

theorem apply_fixes_frame_well_formed_witness:
  "well_formed sample_workflow
   \<and> apply_fixes (lit ''generate'') (lit ''get'') sample_workflow = Inr sample_fixed
   \<and> length (nodes_of sample_fixed) = length (nodes_of sample_workflow)
   \<and> connections_of sample_fixed = connections_of sample_workflow
   \<and> \<not> targeted (nodes_of sample_workflow ! 1)
   \<and> nodes_of sample_fixed ! 1 = nodes_of sample_workflow ! 1"
proof -
  have t: "\<not> targeted (nodes_of sample_workflow ! 1)"
    by (simp add: sample_workflow_def nodes_of_def targeted_def TARGET_NAMES_def lit_def)
  have l: "(1::nat) < length (nodes_of sample_workflow)"
    by (simp add: sample_workflow_def nodes_of_def lit_def)
  from apply_fixes_frame_well_formed [OF sample_well_formed, of "lit ''generate''" "lit ''get''"]
  show ?thesis using sample_well_formed sample_run t l by auto
qed

end
